theory Spec2Isabelle
  imports Main "HOL-Library.Word"
begin

section \<open>Bytes, exceptions and the socket model\<close>

text \<open>
  Python \<open>bytes\<close> are lists of 8-bit words. Lengths, sizes and counters are natural
  numbers: every one of them comes from \<open>len\<close>, \<open>os.path.getsize\<close> or an unsigned
  \<open>struct.unpack\<close>, and the only subtraction of the source
  (\<open>filesize - bytes_received\<close>) is guarded by \<open>bytes_received < filesize\<close>.
\<close>

type_synonym byte = "8 word"
type_synonym bytes = "byte list"

definition ascii :: "string \<Rightarrow> bytes" where
  "ascii s = map (\<lambda>ch. of_nat (of_char ch)) s"

definition METADATA_OK :: bytes where
  "METADATA_OK = ascii ''METADATA_OK''"

definition OK :: bytes where
  "OK = ascii ''OK''"

definition ERROR :: bytes where
  "ERROR = ascii ''ERROR''"

text \<open>The exceptions that the modelled library calls raise.\<close>

datatype exn =
    StructError
  | UnicodeDecodeError
  | UnicodeEncodeError
  | ConnectionResetError
  | BrokenPipeError
  | ConnectionRefusedError
  | FileExistsError
  | FileNotFoundError
  | IsADirectoryError
  | PermissionError

text \<open>
  One end of a TCP connection. \<open>incoming\<close> holds the data the peer will deliver before
  it closes, cut into the fragments in which the transport hands it over; once it is
  used up the peer has closed. \<open>peer_reset\<close> says that the peer aborted the connection
  instead of closing it in order: then every \<open>send\<close> raises, and so does a \<open>recv\<close>
  that finds no data left. \<open>trace\<close> records the operations completed on the socket,
  oldest first.
\<close>

datatype sock_op =
    OpSocket
  | OpConnect
  | OpRecv nat bytes
  | OpSend bytes
  | OpClose

record conn =
  incoming :: "bytes list"
  peer_reset :: bool
  trace :: "sock_op list"

text \<open>
  \<open>socket.recv(bufsize)\<close>: at most \<open>bufsize\<close> bytes of what has arrived, never an empty
  result while data is still to come, and \<open>b''\<close> once the peer has closed. A request for
  zero bytes returns \<open>b''\<close> at once.
\<close>

definition recv :: "nat \<Rightarrow> conn \<Rightarrow> (exn + bytes) \<times> conn" where
  "recv bufsize c =
     (if bufsize = 0 then (Inr [], c\<lparr>trace := trace c @ [OpRecv 0 []]\<rparr>)
      else
        (case dropWhile (\<lambda>f. f = []) (incoming c) of
           [] \<Rightarrow>
             if peer_reset c then (Inl ConnectionResetError, c\<lparr>incoming := []\<rparr>)
             else (Inr [], c\<lparr>incoming := [], trace := trace c @ [OpRecv bufsize []]\<rparr>)
         | f # fs \<Rightarrow>
             (Inr (take bufsize f),
              c\<lparr>incoming := (if length f \<le> bufsize then fs else drop bufsize f # fs),
                trace := trace c @ [OpRecv bufsize (take bufsize f)]\<rparr>)))"

text \<open>\<open>socket.send(data)\<close> on a blocking socket; the source ignores the returned count.\<close>

definition send :: "bytes \<Rightarrow> conn \<Rightarrow> (exn + nat) \<times> conn" where
  "send data c =
     (if peer_reset c then (Inl BrokenPipeError, c)
      else (Inr (length data), c\<lparr>trace := trace c @ [OpSend data]\<rparr>))"

definition close :: "conn \<Rightarrow> conn" where
  "close c = c\<lparr>trace := trace c @ [OpClose]\<rparr>"

section \<open>struct.pack and struct.unpack, network byte order\<close>

fun be_bytes :: "nat \<Rightarrow> nat \<Rightarrow> bytes" where
  "be_bytes 0 n = []"
| "be_bytes (Suc k) n = be_bytes k (n div 256) @ [of_nat (n mod 256)]"

definition from_be :: "bytes \<Rightarrow> nat" where
  "from_be bs = foldl (\<lambda>acc b. acc * 256 + unat b) 0 bs"

text \<open>\<open>struct.pack('!I', n)\<close> and \<open>struct.pack('!Q', n)\<close> raise when \<open>n\<close> does not fit.\<close>

definition pack_I :: "nat \<Rightarrow> exn + bytes" where
  "pack_I n = (if n < 2 ^ 32 then Inr (be_bytes 4 n) else Inl StructError)"

definition pack_Q :: "nat \<Rightarrow> exn + bytes" where
  "pack_Q n = (if n < 2 ^ 64 then Inr (be_bytes 8 n) else Inl StructError)"

text \<open>\<open>struct.unpack('!I', b)[0]\<close> and \<open>struct.unpack('!Q', b)[0]\<close> raise unless the
  buffer has exactly the size of the format.\<close>

definition unpack_I :: "bytes \<Rightarrow> exn + nat" where
  "unpack_I b = (if length b = 4 then Inr (from_be b) else Inl StructError)"

definition unpack_Q :: "bytes \<Rightarrow> exn + nat" where
  "unpack_Q b = (if length b = 8 then Inr (from_be b) else Inl StructError)"

section \<open>The receiver's payload loop\<close>

text \<open>
  Lines 39 to 52 of \<open>file_server.py\<close>: the loop state is the connection, the bytes
  written to the destination file so far and \<open>bytes_received\<close>. The result says whether
  a \<open>recv\<close> raised.
\<close>

lemma recv_length: "recv n c = (Inr d, c') \<Longrightarrow> length d \<le> n"
  by (auto simp: recv_def split: if_splits list.splits)

function recv_loop :: "nat \<Rightarrow> conn \<Rightarrow> bytes \<Rightarrow> nat \<Rightarrow> exn option \<times> conn \<times> bytes \<times> nat" where
  "recv_loop filesize c written bytes_received =
     (if bytes_received < filesize then
        (let chunk_size = min 4096 (filesize - bytes_received) in
         case recv chunk_size c of
           (Inl e, c') \<Rightarrow> (Some e, c', written, bytes_received)
         | (Inr data, c') \<Rightarrow>
             if data = [] then (None, c', written, bytes_received)
             else recv_loop filesize c' (written @ data) (bytes_received + length data))
      else (None, c, written, bytes_received))"
  by pat_completeness auto
termination
  by (relation "measure (\<lambda>(filesize, c, written, bytes_received). filesize - bytes_received)")
     (auto simp: neq_Nil_conv)

section \<open>Python strings and the UTF-8 codec\<close>

text \<open>
  A Python \<open>str\<close> is a list of code points. \<open>str.encode('utf-8')\<close> raises on a
  surrogate; \<open>bytes.decode('utf-8')\<close> is strict: it raises on a truncated or overlong
  sequence, on an encoded surrogate and on a value above \<open>U+10FFFF\<close>.
\<close>

type_synonym pystr = "nat list"

definition str :: "string \<Rightarrow> pystr" where
  "str s = map of_char s"

definition utf8_encode_cp :: "nat \<Rightarrow> exn + bytes" where
  "utf8_encode_cp cp =
     (if cp < 0x80 then Inr [of_nat cp]
      else if cp < 0x800 then Inr [of_nat (0xC0 + cp div 64), of_nat (0x80 + cp mod 64)]
      else if cp < 0x10000 then
        (if 0xD800 \<le> cp \<and> cp \<le> 0xDFFF then Inl UnicodeEncodeError
         else Inr [of_nat (0xE0 + cp div 4096), of_nat (0x80 + cp div 64 mod 64),
                   of_nat (0x80 + cp mod 64)])
      else if cp < 0x110000 then
        Inr [of_nat (0xF0 + cp div 262144), of_nat (0x80 + cp div 4096 mod 64),
             of_nat (0x80 + cp div 64 mod 64), of_nat (0x80 + cp mod 64)]
      else Inl UnicodeEncodeError)"

fun utf8_encode :: "pystr \<Rightarrow> exn + bytes" where
  "utf8_encode [] = Inr []"
| "utf8_encode (cp # cps) =
     (case utf8_encode_cp cp of
        Inl e \<Rightarrow> Inl e
      | Inr b \<Rightarrow> (case utf8_encode cps of Inl e \<Rightarrow> Inl e | Inr bs \<Rightarrow> Inr (b @ bs)))"

definition cont :: "byte \<Rightarrow> bool" where
  "cont b = (0x80 \<le> unat b \<and> unat b \<le> 0xBF)"

text \<open>The first code point of a buffer and the number of bytes it takes.\<close>

definition utf8_decode_cp :: "bytes \<Rightarrow> (nat \<times> nat) option" where
  "utf8_decode_cp bs =
     (case bs of
        [] \<Rightarrow> None
      | b0 # r \<Rightarrow>
          if unat b0 < 0x80 then Some (unat b0, 1)
          else if 0xC2 \<le> unat b0 \<and> unat b0 \<le> 0xDF then
            (case r of
               b1 # _ \<Rightarrow>
                 if cont b1 then Some ((unat b0 - 0xC0) * 64 + (unat b1 - 0x80), 2)
                 else None
             | _ \<Rightarrow> None)
          else if 0xE0 \<le> unat b0 \<and> unat b0 \<le> 0xEF then
            (case r of
               b1 # b2 # _ \<Rightarrow>
                 (let cp = (unat b0 - 0xE0) * 4096 + (unat b1 - 0x80) * 64 + (unat b2 - 0x80)
                  in if cont b1 \<and> cont b2 \<and> 0x800 \<le> cp \<and> \<not> (0xD800 \<le> cp \<and> cp \<le> 0xDFFF)
                     then Some (cp, 3) else None)
             | _ \<Rightarrow> None)
          else if 0xF0 \<le> unat b0 \<and> unat b0 \<le> 0xF4 then
            (case r of
               b1 # b2 # b3 # _ \<Rightarrow>
                 (let cp = (unat b0 - 0xF0) * 262144 + (unat b1 - 0x80) * 4096
                           + (unat b2 - 0x80) * 64 + (unat b3 - 0x80)
                  in if cont b1 \<and> cont b2 \<and> cont b3 \<and> 0x10000 \<le> cp \<and> cp \<le> 0x10FFFF
                     then Some (cp, 4) else None)
             | _ \<Rightarrow> None)
          else None)"

lemma utf8_decode_cp_consumes:
  "utf8_decode_cp bs = Some (cp, n) \<Longrightarrow> 0 < n \<and> n \<le> length bs"
  by (auto simp: utf8_decode_cp_def Let_def split: list.splits if_splits)

function utf8_decode :: "bytes \<Rightarrow> exn + pystr" where
  "utf8_decode bs =
     (if bs = [] then Inr []
      else case utf8_decode_cp bs of
        None \<Rightarrow> Inl UnicodeDecodeError
      | Some (cp, n) \<Rightarrow>
          (case utf8_decode (drop n bs) of Inl e \<Rightarrow> Inl e | Inr cps \<Rightarrow> Inr (cp # cps)))"
  by pat_completeness auto
termination
proof (relation "measure length", goal_cases)
  case 1
  show ?case by simp
next
  case (2 bs x2 cp n)
  then have "0 < n" using utf8_decode_cp_consumes [of bs cp n] by simp
  with 2 show ?case by simp
qed

declare utf8_decode.simps [simp del]

section \<open>The receiver's file system\<close>

text \<open>
  Paths are looked up as written (no normalisation of \<open>.\<close>, \<open>..\<close> or doubled
  separators); the working directory and the root always exist. A file opened for
  writing is created empty or truncated at once.
\<close>

datatype node = Dir | File bytes

type_synonym fs = "pystr \<rightharpoonup> node"

definition received_files :: pystr where
  "received_files = str ''received_files''"

definition slash :: nat where
  "slash = 47"

text \<open>\<open>os.path.join(a, b)\<close> of \<open>posixpath\<close>, for two components.\<close>

definition join :: "pystr \<Rightarrow> pystr \<Rightarrow> pystr" where
  "join a b =
     (if b \<noteq> [] \<and> hd b = slash then b
      else if a = [] \<or> last a = slash then a @ b
      else a @ slash # b)"

text \<open>\<open>os.path.basename(p)\<close>: what follows the last separator.\<close>

definition basename :: "pystr \<Rightarrow> pystr" where
  "basename p = rev (takeWhile (\<lambda>ch. ch \<noteq> slash) (rev p))"

text \<open>What precedes the last separator: the directory that must hold the file.\<close>

definition parent :: "pystr \<Rightarrow> pystr" where
  "parent p = rev (drop 1 (dropWhile (\<lambda>ch. ch \<noteq> slash) (rev p)))"

text \<open>\<open>os.makedirs(name, exist_ok=True)\<close> for a name of one component.\<close>

definition makedirs :: "fs \<Rightarrow> pystr \<Rightarrow> exn + fs" where
  "makedirs fs name =
     (case fs name of
        None \<Rightarrow> Inr (fs(name \<mapsto> Dir))
      | Some Dir \<Rightarrow> Inr fs
      | Some (File _) \<Rightarrow> Inl FileExistsError)"

text \<open>\<open>open(path, 'wb')\<close>.\<close>

definition open_wb :: "fs \<Rightarrow> pystr \<Rightarrow> exn + fs" where
  "open_wb fs path =
     (if path = [] then Inl FileNotFoundError
      else if basename path = [] \<or> fs path = Some Dir then Inl IsADirectoryError
      else if parent path \<noteq> [] \<and> fs (parent path) \<noteq> Some Dir then Inl FileNotFoundError
      else Inr (fs(path \<mapsto> File [])))"

section \<open>The receiver: \<open>receive_file\<close> and \<open>start_server\<close>\<close>

text \<open>The lines the receiver prints about the outcome of a session.\<close>

datatype msg =
    NoDataReceived
  | FileReceivedSuccessfully pystr
  | ErrorMsg exn

text \<open>
  Lines 10 to 26 of \<open>file_server.py\<close>: one \<open>recv\<close> for each header field. \<open>None\<close> is
  the early \<open>return\<close> of line 14.
\<close>

definition recv_header :: "conn \<Rightarrow> (exn + (pystr \<times> nat) option) \<times> conn" where
  "recv_header c =
     (case recv 4 c of
        (Inl e, c1) \<Rightarrow> (Inl e, c1)
      | (Inr filename_len_data, c1) \<Rightarrow>
          if filename_len_data = [] then (Inr None, c1)
          else
            (case unpack_I filename_len_data of
               Inl e \<Rightarrow> (Inl e, c1)
             | Inr filename_len \<Rightarrow>
                 (case recv filename_len c1 of
                    (Inl e, c2) \<Rightarrow> (Inl e, c2)
                  | (Inr name_data, c2) \<Rightarrow>
                      (case utf8_decode name_data of
                         Inl e \<Rightarrow> (Inl e, c2)
                       | Inr filename \<Rightarrow>
                           (case recv 8 c2 of
                              (Inl e, c3) \<Rightarrow> (Inl e, c3)
                            | (Inr filesize_data, c3) \<Rightarrow>
                                (case unpack_Q filesize_data of
                                   Inl e \<Rightarrow> (Inl e, c3)
                                 | Inr filesize \<Rightarrow>
                                     (Inr (Some (filename, filesize)), c3)))))))"

text \<open>
  Lines 28 to 57, after the header: acknowledge, create the directory, open the file,
  run the loop, report. The \<open>with\<close> block keeps what was written also when the loop
  raises.
\<close>

definition receive_payload ::
  "pystr \<Rightarrow> nat \<Rightarrow> conn \<Rightarrow> fs \<Rightarrow> exn option \<times> msg list \<times> conn \<times> fs" where
  "receive_payload filename filesize c fs =
     (case send METADATA_OK c of
        (Inl e, c1) \<Rightarrow> (Some e, [], c1, fs)
      | (Inr _, c1) \<Rightarrow>
          (case makedirs fs received_files of
             Inl e \<Rightarrow> (Some e, [], c1, fs)
           | Inr fs1 \<Rightarrow>
               (let filepath = join received_files filename in
                case open_wb fs1 filepath of
                  Inl e \<Rightarrow> (Some e, [], c1, fs1)
                | Inr fs2 \<Rightarrow>
                    (case recv_loop filesize c1 [] 0 of
                       (Some e, c2, written, bytes_received) \<Rightarrow>
                         (Some e, [], c2, fs2(filepath \<mapsto> File written))
                     | (None, c2, written, bytes_received) \<Rightarrow>
                         (case send OK c2 of
                            (Inl e, c3) \<Rightarrow>
                              (Some e, [FileReceivedSuccessfully filepath], c3,
                               fs2(filepath \<mapsto> File written))
                          | (Inr _, c3) \<Rightarrow>
                              (None, [FileReceivedSuccessfully filepath], c3,
                               fs2(filepath \<mapsto> File written)))))))"

text \<open>The \<open>try\<close> block of \<open>receive_file\<close>.\<close>

definition receive_body :: "conn \<Rightarrow> fs \<Rightarrow> exn option \<times> msg list \<times> conn \<times> fs" where
  "receive_body c fs =
     (case recv_header c of
        (Inl e, c1) \<Rightarrow> (Some e, [], c1, fs)
      | (Inr None, c1) \<Rightarrow> (None, [NoDataReceived], c1, fs)
      | (Inr (Some (filename, filesize)), c1) \<Rightarrow> receive_payload filename filesize c1 fs)"

text \<open>
  \<open>receive_file\<close> with its handler and its \<open>finally\<close>. The first component is the
  exception that leaves the function, if any: the handler's own \<open>conn.send(b"ERROR")\<close>
  is outside every \<open>try\<close>.
\<close>

definition receive_file :: "conn \<Rightarrow> fs \<Rightarrow> exn option \<times> msg list \<times> conn \<times> fs" where
  "receive_file c fs =
     (case receive_body c fs of
        (None, msgs, c1, fs1) \<Rightarrow> (None, msgs, close c1, fs1)
      | (Some e, msgs, c1, fs1) \<Rightarrow>
          (case send ERROR c1 of
             (Inl e', c2) \<Rightarrow> (Some e', msgs @ [ErrorMsg e], close c2, fs1)
           | (Inr _, c2) \<Rightarrow> (None, msgs @ [ErrorMsg e], close c2, fs1)))"

text \<open>
  The accept loop of \<open>start_server\<close>, run on the connections that arrive, in order. It
  catches \<open>KeyboardInterrupt\<close> only: an exception that leaves \<open>receive_file\<close> ends the
  loop. When the queue is used up the server waits in \<open>accept\<close>.
\<close>

datatype server_state = Listening | Crashed exn

fun start_server ::
  "conn list \<Rightarrow> fs \<Rightarrow> server_state \<times> (msg list \<times> conn) list \<times> fs" where
  "start_server [] fs = (Listening, [], fs)"
| "start_server (c # cs) fs =
     (case receive_file c fs of
        (Some e, msgs, c', fs') \<Rightarrow> (Crashed e, [(msgs, c')], fs')
      | (None, msgs, c', fs') \<Rightarrow>
          (case start_server cs fs' of
             (st, sessions, fs'') \<Rightarrow> (st, (msgs, c') # sessions, fs'')))"

section \<open>The sender: \<open>send_file\<close>\<close>

text \<open>
  A source file as the sender sees it: the size \<open>os.path.getsize\<close> reports at the
  start, the bytes the later reads yield (fewer than \<open>st_size\<close> when the file is
  truncated in between) and whether \<open>open(filename, 'rb')\<close> succeeds.
\<close>

record src_file =
  st_size :: nat
  content :: bytes
  readable :: bool

type_synonym src_fs = "pystr \<rightharpoonup> src_file"

text \<open>
  Lines 50 to 60 of \<open>file_client.py\<close>; \<open>rest\<close> is what the open file still holds,
  \<open>f.read(4096)\<close> takes its first 4096 bytes.
\<close>

function send_loop :: "nat \<Rightarrow> conn \<Rightarrow> bytes \<Rightarrow> nat \<Rightarrow> exn option \<times> conn \<times> nat" where
  "send_loop filesize c rest bytes_sent =
     (if bytes_sent < filesize then
        (let chunk = take 4096 rest in
         if chunk = [] then (None, c, bytes_sent)
         else case send chunk c of
           (Inl e, c') \<Rightarrow> (Some e, c', bytes_sent)
         | (Inr _, c') \<Rightarrow> send_loop filesize c' (drop 4096 rest) (bytes_sent + length chunk))
      else (None, c, bytes_sent))"
  by pat_completeness auto
termination
  by (relation "measure (\<lambda>(filesize, c, rest, bytes_sent). filesize - bytes_sent)")
     (auto simp: neq_Nil_conv)

text \<open>Lines 28 to 39: the three writes of the metadata header.\<close>

definition send_header :: "pystr \<Rightarrow> nat \<Rightarrow> conn \<Rightarrow> (exn + unit) \<times> conn" where
  "send_header name filesize c =
     (case utf8_encode name of
        Inl e \<Rightarrow> (Inl e, c)
      | Inr filename_bytes \<Rightarrow>
          (case pack_I (length filename_bytes) of
             Inl e \<Rightarrow> (Inl e, c)
           | Inr len_field \<Rightarrow>
               (case send len_field c of
                  (Inl e, c1) \<Rightarrow> (Inl e, c1)
                | (Inr _, c1) \<Rightarrow>
                    (case send filename_bytes c1 of
                       (Inl e, c2) \<Rightarrow> (Inl e, c2)
                     | (Inr _, c2) \<Rightarrow>
                         (case pack_Q filesize of
                            Inl e \<Rightarrow> (Inl e, c2)
                          | Inr size_field \<Rightarrow>
                              (case send size_field c2 of
                                 (Inl e, c3) \<Rightarrow> (Inl e, c3)
                               | (Inr _, c3) \<Rightarrow> (Inr (), c3)))))))"

text \<open>Lines 41 to 75: the metadata checkpoint, the payload and the final checkpoint.\<close>

definition send_payload :: "src_file \<Rightarrow> conn \<Rightarrow> (exn + bool) \<times> conn" where
  "send_payload f c =
     (case recv 1024 c of
        (Inl e, c1) \<Rightarrow> (Inl e, c1)
      | (Inr metadata_ack, c1) \<Rightarrow>
          if metadata_ack \<noteq> METADATA_OK then (Inr False, c1)
          else if \<not> readable f then (Inl PermissionError, c1)
          else
            (case send_loop (st_size f) c1 (content f) 0 of
               (Some e, c2, bytes_sent) \<Rightarrow> (Inl e, c2)
             | (None, c2, bytes_sent) \<Rightarrow>
                 (case recv 1024 c2 of
                    (Inl e, c3) \<Rightarrow> (Inl e, c3)
                  | (Inr final_ack, c3) \<Rightarrow> (Inr (final_ack = OK), c3))))"

text \<open>The \<open>try\<close> block; \<open>refused\<close> says that \<open>connect\<close> raises.\<close>

definition send_body :: "src_file \<Rightarrow> pystr \<Rightarrow> bool \<Rightarrow> conn \<Rightarrow> (exn + bool) \<times> conn" where
  "send_body f filename refused c =
     (let c0 = c\<lparr>trace := trace c @ [OpSocket]\<rparr> in
      if refused then (Inl ConnectionRefusedError, c0)
      else
        (let c1 = c0\<lparr>trace := trace c0 @ [OpConnect]\<rparr> in
         case send_header (basename filename) (st_size f) c1 of
           (Inl e, c2) \<Rightarrow> (Inl e, c2)
         | (Inr _, c2) \<Rightarrow> send_payload f c2))"

text \<open>
  \<open>send_file\<close>: the existence check, then the \<open>try\<close> block; both handlers return
  \<open>False\<close> and the \<open>finally\<close> closes the socket.
\<close>

definition send_file :: "src_fs \<Rightarrow> bool \<Rightarrow> conn \<Rightarrow> pystr \<Rightarrow> bool \<times> conn" where
  "send_file fs refused c filename =
     (case fs filename of
        None \<Rightarrow> (False, c)
      | Some f \<Rightarrow>
          (case send_body f filename refused c of
             (Inl e, c') \<Rightarrow> (False, close c')
           | (Inr result, c') \<Rightarrow> (result, close c')))"

section \<open>Predicates used to state the properties\<close>

text \<open>
  A run of the receive loop issues bounded reads when every operation it performs is a
  \<open>recv\<close> that asks for at most \<open>min(4096, S - b)\<close> bytes, \<open>b\<close> being the number of
  payload bytes received before it, and gets at most what it asked for.
\<close>

fun reads_bounded :: "nat \<Rightarrow> nat \<Rightarrow> sock_op list \<Rightarrow> bool" where
  "reads_bounded S b [] = True"
| "reads_bounded S b (OpRecv n d # ops) =
     (n \<le> min 4096 (S - b) \<and> length d \<le> n \<and> reads_bounded S (b + length d) ops)"
| "reads_bounded S b (_ # ops) = False"

text \<open>
  The payloads of the \<open>send\<close> operations of a trace, and those among them that
  come after the first \<open>recv\<close>: on the sender's socket the first \<open>recv\<close> is the
  metadata checkpoint, so these are the payload writes.
\<close>

fun sent :: "sock_op list \<Rightarrow> bytes list" where
  "sent [] = []"
| "sent (OpSend d # ops) = d # sent ops"
| "sent (_ # ops) = sent ops"

fun sends_after_recv :: "sock_op list \<Rightarrow> bytes list" where
  "sends_after_recv [] = []"
| "sends_after_recv (OpRecv n d # ops) = sent ops"
| "sends_after_recv (_ # ops) = sends_after_recv ops"

section \<open>Properties of \<open>recv\<close> and of the receive loop\<close>

lemma concat_dropWhile_empty: "concat (dropWhile (\<lambda>f. f = []) fs) = concat fs"
  by (induction fs) auto

lemma dropWhile_empty_Cons: "dropWhile (\<lambda>f. f = []) fs = f # r \<Longrightarrow> f \<noteq> []"
  using hd_dropWhile [of "\<lambda>f. f = []" fs] by auto

lemma recv_trace:
  "recv n c = (Inr d, c') \<Longrightarrow> trace c' = trace c @ [OpRecv n d] \<and> peer_reset c' = peer_reset c"
  by (auto simp: recv_def split: if_splits list.splits)

lemma recv_raise:
  "recv n c = (Inl e, c') \<Longrightarrow> trace c' = trace c \<and> peer_reset c' = peer_reset c"
  by (auto simp: recv_def split: if_splits list.splits)

lemma recv_stream:
  assumes "recv n c = (r, c')" and "0 < n" and "concat (incoming c) \<noteq> []"
  shows "\<exists>d. r = Inr d \<and> d \<noteq> [] \<and> concat (incoming c) = d @ concat (incoming c')"
proof (cases "dropWhile (\<lambda>f. f = []) (incoming c)")
  case Nil
  then have "concat (incoming c) = []"
    using concat_dropWhile_empty [of "incoming c"] by simp
  with assms show ?thesis by simp
next
  case (Cons f fs)
  then have ne: "f \<noteq> []" by (rule dropWhile_empty_Cons)
  have cc: "concat (incoming c) = f @ concat fs"
    using concat_dropWhile_empty [of "incoming c"] Cons by simp
  from assms Cons have r: "r = Inr (take n f)"
    and c': "incoming c' = (if length f \<le> n then fs else drop n f # fs)"
    by (auto simp: recv_def)
  from ne \<open>0 < n\<close> have "take n f \<noteq> []" by (cases f) auto
  moreover have "concat (incoming c) = take n f @ concat (incoming c')"
    using cc c' by auto
  ultimately show ?thesis using r by blast
qed

lemma recv_loop_trace:
  "recv_loop S c w b = (e, c', w', b') \<Longrightarrow>
     \<exists>ops. trace c' = trace c @ ops \<and> reads_bounded S b ops"
proof (induction S c w b arbitrary: e c' w' b' rule: recv_loop.induct)
  case (1 filesize c written bytes_received)
  show ?case
  proof (cases "bytes_received < filesize")
    case False
    with "1.prems" show ?thesis by simp
  next
    case True
    let ?n = "min 4096 (filesize - bytes_received)"
    obtain r c1 where rc: "recv ?n c = (r, c1)" by (cases "recv ?n c")
    show ?thesis
    proof (cases r)
      case (Inl x)
      with True rc "1.prems" have "c' = c1" by (simp add: Let_def)
      with rc Inl show ?thesis using recv_raise [of ?n c x c1] by simp
    next
      case (Inr d)
      have tr: "trace c1 = trace c @ [OpRecv ?n d]" and len: "length d \<le> ?n"
        using rc Inr recv_trace [of ?n c d c1] recv_length [of ?n c d c1] by simp_all
      show ?thesis
      proof (cases "d = []")
        case True
        with \<open>bytes_received < filesize\<close> rc Inr "1.prems" have "c' = c1" by (simp add: Let_def)
        with tr True show ?thesis by simp
      next
        case False
        with True rc Inr "1.prems"
        have rec: "recv_loop filesize c1 (written @ d) (bytes_received + length d) = (e, c', w', b')"
          by (simp add: Let_def)
        from "1.IH" [OF True refl rc [symmetric] Inr False rec]
        obtain ops where "trace c' = trace c1 @ ops"
          and "reads_bounded filesize (bytes_received + length d) ops" by blast
        with tr len show ?thesis by simp
      qed
    qed
  qed
qed

lemma recv_loop_delivered:
  "b \<le> S \<Longrightarrow> S - b \<le> length (concat (incoming c)) \<Longrightarrow>
   recv_loop S c w b = (e, c', w', b') \<Longrightarrow>
     e = None \<and> b' = S \<and> w' = w @ take (S - b) (concat (incoming c)) \<and>
     concat (incoming c') = drop (S - b) (concat (incoming c))"
proof (induction S c w b arbitrary: e c' w' b' rule: recv_loop.induct)
  case (1 filesize c written bytes_received)
  show ?case
  proof (cases "bytes_received < filesize")
    case False
    with "1.prems" show ?thesis by simp
  next
    case True
    let ?n = "min 4096 (filesize - bytes_received)"
    let ?s = "concat (incoming c)"
    obtain r c1 where rc: "recv ?n c = (r, c1)" by (cases "recv ?n c")
    from True "1.prems"(2) have "0 < length ?s" by linarith
    then have "?s \<noteq> []" by simp
    with rc True obtain d where r: "r = Inr d" and ne: "d \<noteq> []"
      and s: "?s = d @ concat (incoming c1)"
      using recv_stream [of ?n c r c1] by auto
    have len: "length d \<le> ?n" using rc r recv_length [of ?n c d c1] by simp
    from True rc r ne "1.prems"
    have rec: "recv_loop filesize c1 (written @ d) (bytes_received + length d) = (e, c', w', b')"
      by (simp add: Let_def)
    have le: "bytes_received + length d \<le> filesize" using len True by auto
    have enough: "filesize - (bytes_received + length d) \<le> length (concat (incoming c1))"
      using "1.prems"(2) s by auto
    have split: "filesize - bytes_received = length d + (filesize - (bytes_received + length d))"
      using le by auto
    from "1.IH" [OF True refl rc [symmetric] r ne le enough rec]
    have "e = None" and "b' = filesize"
      and w: "w' = (written @ d) @ take (filesize - (bytes_received + length d)) (concat (incoming c1))"
      and i: "concat (incoming c') = drop (filesize - (bytes_received + length d)) (concat (incoming c1))"
      by simp_all
    moreover have "take (filesize - bytes_received) ?s
        = d @ take (filesize - (bytes_received + length d)) (concat (incoming c1))"
      by (subst split, subst s) simp
    moreover have "drop (filesize - bytes_received) ?s
        = drop (filesize - (bytes_received + length d)) (concat (incoming c1))"
      by (subst split, subst s) simp
    ultimately show ?thesis by simp
  qed
qed

lemma recv_loop_mono:
  "recv_loop S c w b = (e, c', w', b') \<Longrightarrow>
     b \<le> b' \<and> (b \<le> S \<longrightarrow> b' \<le> S) \<and> length w' = length w + (b' - b) \<and> take (length w) w' = w"
proof (induction S c w b arbitrary: e c' w' b' rule: recv_loop.induct)
  case (1 filesize c written bytes_received)
  show ?case
  proof (cases "bytes_received < filesize")
    case False
    with "1.prems" show ?thesis by simp
  next
    case True
    let ?n = "min 4096 (filesize - bytes_received)"
    obtain r c1 where rc: "recv ?n c = (r, c1)" by (cases "recv ?n c")
    show ?thesis
    proof (cases r)
      case (Inl x)
      with True rc "1.prems" show ?thesis by (simp add: Let_def)
    next
      case (Inr d)
      have len: "length d \<le> ?n" using rc Inr recv_length [of ?n c d c1] by simp
      show ?thesis
      proof (cases "d = []")
        case True
        with \<open>bytes_received < filesize\<close> rc Inr "1.prems" show ?thesis by (simp add: Let_def)
      next
        case False
        with True rc Inr "1.prems"
        have rec: "recv_loop filesize c1 (written @ d) (bytes_received + length d) = (e, c', w', b')"
          by (simp add: Let_def)
        from "1.IH" [OF True refl rc [symmetric] Inr False rec] len True
        show ?thesis by (auto dest: arg_cong [where f = "take (length written)"])
      qed
    qed
  qed
qed

text \<open>
  C3. For every declared size \<open>S\<close> and every fragmentation of the incoming data, the
  receive loop started at \<open>bytes_received = 0\<close> only appends \<open>recv\<close> operations to the
  trace, each asking for no more than \<open>min(4096, S - bytes_received)\<close> bytes; and when
  the connection delivers at least \<open>S\<close> bytes the loop ends without an exception, having
  written exactly the first \<open>S\<close> bytes of the stream, with \<open>bytes_received = S\<close>. The
  loop always ends: \<open>recv_loop\<close> is a total function.
\<close>

theorem recv_loop_bounded_exact:
  assumes "recv_loop S c [] 0 = (e, c', written, bytes_received)"
  shows "take (length (trace c)) (trace c') = trace c \<and>
         reads_bounded S 0 (drop (length (trace c)) (trace c')) \<and>
         (S \<le> length (concat (incoming c)) \<longrightarrow>
            e = None \<and> bytes_received = S \<and> written = take S (concat (incoming c)) \<and>
            length written = S)"
proof -
  from recv_loop_trace [OF assms] obtain ops
    where "trace c' = trace c @ ops" and "reads_bounded S 0 ops" by blast
  then have "take (length (trace c)) (trace c') = trace c"
    and "reads_bounded S 0 (drop (length (trace c)) (trace c'))" by simp_all
  moreover have "e = None \<and> bytes_received = S \<and> written = take S (concat (incoming c)) \<and>
      length written = S" if "S \<le> length (concat (incoming c))"
    using recv_loop_delivered [of 0 S c "[]" e c' written bytes_received] that assms
    by simp
  ultimately show ?thesis by blast
qed

theorem recv_loop_bounded_exact_witness:
  "recv_loop 5 \<lparr>incoming = [[1, 2], [], [3], [4, 5, 6]], peer_reset = False, trace = []\<rparr> [] 0
     = (None,
        \<lparr>incoming = [[6]], peer_reset = False,
          trace = [OpRecv 5 [1, 2], OpRecv 3 [3], OpRecv 2 [4, 5]]\<rparr>,
        [1, 2, 3, 4, 5], 5) \<and>
   reads_bounded 5 0 [OpRecv 5 [1, 2], OpRecv 3 [3], OpRecv 2 [4, 5]] \<and>
   (5::nat) \<le> length (concat [[1, 2], [], [3], [4, 5, 6 :: byte]])"
proof -
  have run: "recv_loop 5 \<lparr>incoming = [[1, 2], [], [3], [4, 5, 6]], peer_reset = False, trace = []\<rparr> [] 0
     = (None,
        \<lparr>incoming = [[6]], peer_reset = False,
          trace = [OpRecv 5 [1, 2], OpRecv 3 [3], OpRecv 2 [4, 5]]\<rparr>,
        [1, 2, 3, 4, 5], 5)"
    by (simp add: recv_def)
  from recv_loop_bounded_exact [OF run] run show ?thesis by simp
qed

section \<open>Properties of the sender\<close>

lemma sent_append: "sent (xs @ ys) = sent xs @ sent ys"
  by (induction xs rule: sent.induct) auto

lemma sent_map_OpSend: "sent (map OpSend ds) = ds"
  by (induction ds) auto

lemma sends_after_recv_sends: "sends_after_recv (map OpSend ds @ ops) = sends_after_recv ops"
  by (induction ds) auto

lemma send_conn:
  "send d c = (r, c') \<Longrightarrow>
     incoming c' = incoming c \<and> peer_reset c' = peer_reset c \<and>
     (case r of Inl e \<Rightarrow> trace c' = trace c | Inr n \<Rightarrow> trace c' = trace c @ [OpSend d])"
  by (auto simp: send_def split: if_splits)

lemma send_header_conn:
  assumes "send_header name filesize c = (r, c')"
  shows "incoming c' = incoming c \<and> peer_reset c' = peer_reset c \<and>
         (\<exists>ds. trace c' = trace c @ map OpSend ds)"
proof -
  have a: "\<exists>ds. [OpSend x] = map OpSend ds" for x :: bytes
    by (rule exI [of _ "[x]"]) simp
  have b: "\<exists>ds. [OpSend x, OpSend y] = map OpSend ds" for x y :: bytes
    by (rule exI [of _ "[x, y]"]) simp
  have d: "\<exists>ds. [OpSend x, OpSend y, OpSend z] = map OpSend ds" for x y z :: bytes
    by (rule exI [of _ "[x, y, z]"]) simp
  from assms show ?thesis
    by (auto simp: send_header_def send_def a b d split: sum.splits if_splits)
qed

lemma fst_recv:
  "fst (recv n c) =
     (if n = 0 then Inr []
      else case dropWhile (\<lambda>f. f = []) (incoming c) of
        [] \<Rightarrow> if peer_reset c then Inl ConnectionResetError else Inr []
      | f # fs \<Rightarrow> Inr (take n f))"
  by (cases "dropWhile (\<lambda>f. f = []) (incoming c)")
     (simp_all add: recv_def del: dropWhile_eq_Nil_conv)

lemma recv_fst_cong:
  "incoming c = incoming c' \<Longrightarrow> peer_reset c = peer_reset c' \<Longrightarrow> fst (recv n c) = fst (recv n c')"
  by (simp only: fst_recv)

text \<open>
  C10. For every path at which nothing exists (\<open>os.path.exists\<close> is false),
  \<open>send_file\<close> returns \<open>False\<close> and leaves the network untouched: the trace of the
  socket is unchanged, so no socket is created, no connection attempted and nothing
  written.
\<close>

theorem send_file_missing:
  "fs filename = None \<Longrightarrow> send_file fs refused c filename = (False, c)"
  by (simp add: send_file_def)

theorem send_file_missing_witness:
  "(Map.empty :: src_fs) (str ''nofile'') = None \<and>
   send_file Map.empty False \<lparr>incoming = [], peer_reset = False, trace = []\<rparr> (str ''nofile'')
     = (False, \<lparr>incoming = [], peer_reset = False, trace = []\<rparr>)"
  using send_file_missing [of Map.empty "str ''nofile''" False
      "\<lparr>incoming = [], peer_reset = False, trace = []\<rparr>"]
  by simp

text \<open>
  C5. Whenever what the sender would read at the metadata checkpoint is anything but
  the literal \<open>METADATA_OK\<close> (another token, a partial token, \<open>b''\<close> from a closed
  connection, or an exception), \<open>send_file\<close> returns \<open>False\<close> and no \<open>send\<close>
  follows the checkpoint's \<open>recv\<close>: zero payload bytes are written.
\<close>

theorem bad_handshake_no_payload:
  assumes "fst (recv 1024 c) \<noteq> Inr METADATA_OK"
  shows "fst (send_file fs refused c filename) = False \<and>
         sends_after_recv (drop (length (trace c)) (trace (snd (send_file fs refused c filename)))) = []"
proof (cases "fs filename")
  case None
  then show ?thesis by (simp add: send_file_def)
next
  case (Some f)
  show ?thesis
  proof (cases refused)
    case True
    with Some show ?thesis by (simp add: send_file_def send_body_def close_def)
  next
    case False
    let ?c1 = "c\<lparr>trace := trace c @ [OpSocket, OpConnect]\<rparr>"
    obtain r c2 where h: "send_header (basename filename) (st_size f) ?c1 = (r, c2)"
      by (cases "send_header (basename filename) (st_size f) ?c1")
    from send_header_conn [OF h] obtain ds
      where inc: "incoming c2 = incoming c" and pr: "peer_reset c2 = peer_reset c"
        and tr: "trace c2 = trace c @ [OpSocket, OpConnect] @ map OpSend ds" by auto
    show ?thesis
    proof (cases r)
      case (Inl e)
      with Some False h tr show ?thesis
        by (simp add: send_file_def send_body_def close_def sends_after_recv_sends)
    next
      case (Inr u)
      obtain t c3 where rc: "recv 1024 c2 = (t, c3)" by (cases "recv 1024 c2")
      have "fst (recv 1024 c2) = fst (recv 1024 c)" using inc pr by (rule recv_fst_cong)
      with rc assms have t: "t \<noteq> Inr METADATA_OK" by simp
      show ?thesis
      proof (cases t)
        case (Inl e)
        with rc have "trace c3 = trace c2" using recv_raise [of 1024 c2 e c3] by simp
        with Some False h Inr rc Inl tr show ?thesis
          by (simp add: send_file_def send_body_def send_payload_def close_def
              sends_after_recv_sends)
      next
        case (Inr tok)
        with rc have "trace c3 = trace c2 @ [OpRecv 1024 tok]"
          using recv_trace [of 1024 c2 tok c3] by simp
        with Some False h \<open>r = Inr u\<close> rc Inr t tr show ?thesis
          by (simp add: send_file_def send_body_def send_payload_def close_def
              sends_after_recv_sends)
      qed
    qed
  qed
qed


theorem bad_handshake_no_payload_witness:
  "fst (recv 1024 \<lparr>incoming = [ERROR], peer_reset = False, trace = []\<rparr>) \<noteq> Inr METADATA_OK \<and>
   fst (send_file [str ''a.txt'' \<mapsto> \<lparr>st_size = 3, content = [1, 2, 3], readable = True\<rparr>] False
          \<lparr>incoming = [ERROR], peer_reset = False, trace = []\<rparr> (str ''a.txt'')) = False \<and>
   sends_after_recv (drop (length (trace \<lparr>incoming = [ERROR], peer_reset = False, trace = []\<rparr>))
     (trace (snd (send_file [str ''a.txt'' \<mapsto> \<lparr>st_size = 3, content = [1, 2, 3], readable = True\<rparr>]
        False \<lparr>incoming = [ERROR], peer_reset = False, trace = []\<rparr> (str ''a.txt''))))) = []"
proof -
  have h: "fst (recv 1024 \<lparr>incoming = [ERROR], peer_reset = False, trace = []\<rparr>) \<noteq> Inr METADATA_OK"
    by (simp add: recv_def METADATA_OK_def ERROR_def ascii_def)
  from bad_handshake_no_payload [OF h] h show ?thesis by blast
qed

lemma send_loop_short_source:
  "\<not> peer_reset c \<Longrightarrow> bytes_sent + length rest < filesize \<Longrightarrow>
     \<exists>chunks. concat chunks = rest \<and>
       send_loop filesize c rest bytes_sent =
         (None, c\<lparr>trace := trace c @ map OpSend chunks\<rparr>, bytes_sent + length rest)"
proof (induction filesize c rest bytes_sent rule: send_loop.induct)
  case (1 filesize c rest bytes_sent)
  from "1.prems" have lt: "bytes_sent < filesize" by simp
  show ?case
  proof (cases "take 4096 rest = []")
    case True
    then have "rest = []" by (cases rest) simp_all
    with lt have "send_loop filesize c rest bytes_sent
        = (None, c\<lparr>trace := trace c @ map OpSend []\<rparr>, bytes_sent + length rest)"
      by simp
    moreover have "concat [] = rest" using \<open>rest = []\<close> by simp
    ultimately show ?thesis by blast
  next
    case False
    let ?chunk = "take 4096 rest"
    let ?c1 = "c\<lparr>trace := trace c @ [OpSend ?chunk]\<rparr>"
    have snd: "send ?chunk c = (Inr (length ?chunk), ?c1)"
      using "1.prems"(1) by (simp add: send_def)
    have pr: "\<not> peer_reset ?c1" using "1.prems"(1) by simp
    have len: "bytes_sent + length ?chunk + length (drop 4096 rest) < filesize"
      using "1.prems"(2) by simp
    from "1.IH" [OF lt refl False snd [symmetric] refl pr len]
    obtain chunks where cc: "concat chunks = drop 4096 rest"
      and run: "send_loop filesize ?c1 (drop 4096 rest) (bytes_sent + length ?chunk)
          = (None, ?c1\<lparr>trace := trace ?c1 @ map OpSend chunks\<rparr>,
             bytes_sent + length ?chunk + length (drop 4096 rest))"
      by blast
    have "send_loop filesize c rest bytes_sent
        = send_loop filesize ?c1 (drop 4096 rest) (bytes_sent + length ?chunk)"
      using lt False snd by (subst send_loop.simps) (simp add: Let_def)
    with run have "send_loop filesize c rest bytes_sent
        = (None, c\<lparr>trace := trace c @ map OpSend (?chunk # chunks)\<rparr>, bytes_sent + length rest)"
      by simp
    moreover have "concat (?chunk # chunks) = rest" using cc by simp
    ultimately show ?thesis by blast
  qed
qed


lemma send_header_ok:
  assumes "utf8_encode name = Inr name_bytes" and "length name_bytes < 2 ^ 32"
    and "filesize < 2 ^ 64" and "\<not> peer_reset c"
  shows "send_header name filesize c =
           (Inr (), c\<lparr>trace := trace c @ [OpSend (be_bytes 4 (length name_bytes)),
                                           OpSend name_bytes, OpSend (be_bytes 8 filesize)]\<rparr>)"
  using assms by (simp add: send_header_def pack_I_def pack_Q_def send_def)

lemma recv_token:
  assumes "incoming c = tok # rest" and "tok \<noteq> []" and "length tok \<le> n"
  shows "recv n c = (Inr tok, c\<lparr>incoming := rest, trace := trace c @ [OpRecv n tok]\<rparr>)"
proof -
  from assms(2,3) have "n \<noteq> 0" by (cases tok) auto
  with assms show ?thesis by (simp add: recv_def)
qed

lemma METADATA_OK_token: "METADATA_OK \<noteq> [] \<and> length METADATA_OK \<le> 1024"
  by (simp add: METADATA_OK_def ascii_def)

text \<open>
  C7. When the source file yields fewer bytes than the size \<open>st_size\<close> announced in the
  header, the sender does not abort at the zero-byte read: after the acknowledged
  header it sends every byte the file holds, leaves the loop, performs the \<open>recv\<close>
  for the final acknowledgment, and returns whether that token is \<open>OK\<close>.
\<close>

theorem truncated_source_waits_for_ack:
  assumes src: "fs filename = Some f" "readable f"
    and short: "length (content f) < st_size f"
    and name: "utf8_encode (basename filename) = Inr name_bytes" "length name_bytes < 2 ^ 32"
    and size: "st_size f < 2 ^ 64"
    and net: "\<not> peer_reset c" "incoming c = METADATA_OK # rest"
    and fin: "fst (recv 1024 (c\<lparr>incoming := rest\<rparr>)) = Inr final_ack"
  shows "\<exists>chunks c'. send_file fs False c filename = (final_ack = OK, c') \<and>
           concat chunks = content f \<and>
           trace c' = trace c @
             [OpSocket, OpConnect, OpSend (be_bytes 4 (length name_bytes)), OpSend name_bytes,
              OpSend (be_bytes 8 (st_size f)), OpRecv 1024 METADATA_OK] @
             map OpSend chunks @ [OpRecv 1024 final_ack, OpClose]"
proof -
  let ?c1 = "c\<lparr>trace := trace c @ [OpSocket, OpConnect]\<rparr>"
  let ?hdr = "[OpSend (be_bytes 4 (length name_bytes)), OpSend name_bytes,
               OpSend (be_bytes 8 (st_size f))]"
  let ?c2 = "?c1\<lparr>trace := trace ?c1 @ ?hdr\<rparr>"
  let ?c3 = "?c2\<lparr>incoming := rest, trace := trace ?c2 @ [OpRecv 1024 METADATA_OK]\<rparr>"
  have hdr: "send_header (basename filename) (st_size f) ?c1 = (Inr (), ?c2)"
    using name size net(1) by (simp add: send_header_ok)
  have ack: "recv 1024 ?c2 = (Inr METADATA_OK, ?c3)"
    using net(2) METADATA_OK_token by (simp add: recv_token)
  have "\<not> peer_reset ?c3" using net(1) by simp
  moreover have "0 + length (content f) < st_size f" using short by simp
  ultimately obtain chunks where cc: "concat chunks = content f"
    and loop: "send_loop (st_size f) ?c3 (content f) 0 =
        (None, ?c3\<lparr>trace := trace ?c3 @ map OpSend chunks\<rparr>, 0 + length (content f))"
    using send_loop_short_source [of ?c3 0 "content f" "st_size f"] by blast
  let ?c4 = "?c3\<lparr>trace := trace ?c3 @ map OpSend chunks\<rparr>"
  obtain t c5 where rc: "recv 1024 ?c4 = (t, c5)" by (cases "recv 1024 ?c4")
  have "fst (recv 1024 ?c4) = fst (recv 1024 (c\<lparr>incoming := rest\<rparr>))"
    by (rule recv_fst_cong) simp_all
  with rc fin have t: "t = Inr final_ack" by simp
  with rc have tr5: "trace c5 = trace ?c4 @ [OpRecv 1024 final_ack]"
    using recv_trace [of 1024 ?c4 final_ack c5] by simp
  have "send_payload f ?c2 = (Inr (final_ack = OK), c5)"
    using ack src(2) loop rc t by (simp add: send_payload_def)
  with hdr have "send_body f filename False c = (Inr (final_ack = OK), c5)"
    by (simp add: send_body_def)
  with src(1) have "send_file fs False c filename = (final_ack = OK, close c5)"
    by (simp add: send_file_def)
  moreover have "trace (close c5) = trace c @
             [OpSocket, OpConnect, OpSend (be_bytes 4 (length name_bytes)), OpSend name_bytes,
              OpSend (be_bytes 8 (st_size f)), OpRecv 1024 METADATA_OK] @
             map OpSend chunks @ [OpRecv 1024 final_ack, OpClose]"
    using tr5 by (simp add: close_def)
  ultimately show ?thesis using cc by blast
qed


theorem truncated_source_waits_for_ack_witness:
  "[str ''a.txt'' \<mapsto> \<lparr>st_size = 5, content = [1, 2], readable = True\<rparr>] (str ''a.txt'')
     = Some \<lparr>st_size = 5, content = [1, 2], readable = True\<rparr> \<and>
   readable \<lparr>st_size = 5, content = [1, 2], readable = True\<rparr> \<and>
   length (content \<lparr>st_size = 5, content = [1, 2], readable = True\<rparr>)
     < st_size \<lparr>st_size = 5, content = [1, 2], readable = True\<rparr> \<and>
   utf8_encode (basename (str ''a.txt'')) = Inr (ascii ''a.txt'') \<and>
   length (ascii ''a.txt'') < 2 ^ 32 \<and>
   st_size \<lparr>st_size = 5, content = [1, 2], readable = True\<rparr> < 2 ^ 64 \<and>
   \<not> peer_reset \<lparr>incoming = [METADATA_OK, OK], peer_reset = False, trace = []\<rparr> \<and>
   incoming \<lparr>incoming = [METADATA_OK, OK], peer_reset = False, trace = []\<rparr> = METADATA_OK # [OK] \<and>
   fst (recv 1024 (\<lparr>incoming = [METADATA_OK, OK], peer_reset = False, trace = []\<rparr>\<lparr>incoming := [OK]\<rparr>))
     = Inr OK \<and>
   (\<exists>chunks c'.
      send_file [str ''a.txt'' \<mapsto> \<lparr>st_size = 5, content = [1, 2], readable = True\<rparr>] False
        \<lparr>incoming = [METADATA_OK, OK], peer_reset = False, trace = []\<rparr> (str ''a.txt'') = (True, c') \<and>
      concat chunks = [1, 2] \<and>
      trace c' =
        [OpSocket, OpConnect, OpSend (be_bytes 4 (length (ascii ''a.txt''))), OpSend (ascii ''a.txt''), OpSend (be_bytes 8 5),
         OpRecv 1024 METADATA_OK] @ map OpSend chunks @ [OpRecv 1024 OK, OpClose])"
proof -
  let ?f = "\<lparr>st_size = 5, content = [1, 2], readable = True\<rparr>"
  let ?c = "\<lparr>incoming = [METADATA_OK, OK], peer_reset = False, trace = []\<rparr>"
  have h1: "[str ''a.txt'' \<mapsto> ?f] (str ''a.txt'') = Some ?f" by simp
  have h2: "readable ?f" by simp
  have h3: "length (content ?f) < st_size ?f" by simp
  have h4: "utf8_encode (basename (str ''a.txt'')) = Inr (ascii ''a.txt'')"
    by (simp add: basename_def str_def slash_def ascii_def utf8_encode_cp_def)
  have h5: "length (ascii ''a.txt'') < 2 ^ 32" by (simp add: ascii_def)
  have h6: "st_size ?f < 2 ^ 64" by simp
  have h7: "\<not> peer_reset ?c" by simp
  have h8: "incoming ?c = METADATA_OK # [OK]" by simp
  have h9: "fst (recv 1024 (?c\<lparr>incoming := [OK]\<rparr>)) = Inr OK"
    by (simp add: recv_def OK_def ascii_def)
  from truncated_source_waits_for_ack
    [where fs = "[str ''a.txt'' \<mapsto> ?f]" and filename = "str ''a.txt''" and f = ?f
       and name_bytes = "ascii ''a.txt''" and c = ?c and rest = "[OK]" and final_ack = OK,
     OF h1 h2 h3 h4 h5 h6 h7 h8 h9]
  have "\<exists>chunks c'.
      send_file [str ''a.txt'' \<mapsto> ?f] False ?c (str ''a.txt'') = (True, c') \<and>
      concat chunks = [1, 2] \<and>
      trace c' =
        [OpSocket, OpConnect, OpSend (be_bytes 4 (length (ascii ''a.txt''))), OpSend (ascii ''a.txt''), OpSend (be_bytes 8 5),
         OpRecv 1024 METADATA_OK] @ map OpSend chunks @ [OpRecv 1024 OK, OpClose]"
    by simp
  with h1 h2 h3 h4 h5 h6 h7 h8 h9 show ?thesis by blast
qed

section \<open>Properties of the header codec\<close>

lemma length_be_bytes: "length (be_bytes k n) = k"
  by (induction k arbitrary: n) auto

lemma from_be_snoc: "from_be (bs @ [b]) = from_be bs * 256 + unat b"
  by (simp add: from_be_def)

lemma unat_byte_of_nat: "n < 256 \<Longrightarrow> unat (of_nat n :: byte) = n"
  by (simp add: unat_of_nat)

lemma from_be_be_bytes: "from_be (be_bytes k n) = n mod 256 ^ k"
proof (induction k arbitrary: n)
  case 0
  show ?case by (simp add: from_be_def)
next
  case (Suc k)
  have "from_be (be_bytes (Suc k) n) = (n div 256 mod 256 ^ k) * 256 + n mod 256"
    by (simp add: from_be_snoc Suc.IH unat_byte_of_nat)
  also have "\<dots> = n mod 256 ^ Suc k"
    by (simp add: mod_mult2_eq)
  finally show ?case .
qed

lemma unpack_pack_I: "n < 2 ^ 32 \<Longrightarrow> pack_I n = Inr b \<Longrightarrow> unpack_I b = Inr n"
  by (auto simp: pack_I_def unpack_I_def length_be_bytes from_be_be_bytes)

lemma unpack_pack_Q: "n < 2 ^ 64 \<Longrightarrow> pack_Q n = Inr b \<Longrightarrow> unpack_Q b = Inr n"
  by (auto simp: pack_Q_def unpack_Q_def length_be_bytes from_be_be_bytes)



lemma decode1:
  "unat b0 < 0x80 \<Longrightarrow> utf8_decode_cp (b0 # rest) = Some (unat b0, 1)"
  by (simp add: utf8_decode_cp_def)

lemma decode2:
  "unat b0 = 0xC0 + a \<Longrightarrow> 2 \<le> a \<Longrightarrow> a < 32 \<Longrightarrow> unat b1 = 0x80 + l \<Longrightarrow> l < 64 \<Longrightarrow>
     utf8_decode_cp (b0 # b1 # rest) = Some (a * 64 + l, 2)"
  by (simp add: utf8_decode_cp_def cont_def)

lemma decode3:
  "unat b0 = 0xE0 + a \<Longrightarrow> a < 16 \<Longrightarrow> unat b1 = 0x80 + m \<Longrightarrow> m < 64 \<Longrightarrow>
   unat b2 = 0x80 + l \<Longrightarrow> l < 64 \<Longrightarrow> a * 4096 + m * 64 + l = cp \<Longrightarrow>
   0x800 \<le> cp \<Longrightarrow> \<not> (0xD800 \<le> cp \<and> cp \<le> 0xDFFF) \<Longrightarrow>
     utf8_decode_cp (b0 # b1 # b2 # rest) = Some (cp, 3)"
  by (simp add: utf8_decode_cp_def cont_def Let_def)

lemma decode4:
  "unat b0 = 0xF0 + a \<Longrightarrow> a < 5 \<Longrightarrow> unat b1 = 0x80 + h \<Longrightarrow> h < 64 \<Longrightarrow>
   unat b2 = 0x80 + m \<Longrightarrow> m < 64 \<Longrightarrow> unat b3 = 0x80 + l \<Longrightarrow> l < 64 \<Longrightarrow>
   a * 262144 + h * 4096 + m * 64 + l = cp \<Longrightarrow> 0x10000 \<le> cp \<Longrightarrow> cp \<le> 0x10FFFF \<Longrightarrow>
     utf8_decode_cp (b0 # b1 # b2 # b3 # rest) = Some (cp, 4)"
  by (simp add: utf8_decode_cp_def cont_def Let_def)


lemma split2: "A * 64 + B = x \<Longrightarrow> x * 64 + C = cp \<Longrightarrow> A * 4096 + B * 64 + C = (cp::nat)"
  by simp

lemma split3:
  "A * 64 + B = y \<Longrightarrow> y * 64 + C = x \<Longrightarrow> x * 64 + D = cp \<Longrightarrow>
     A * 262144 + B * 4096 + C * 64 + D = (cp::nat)"
  by simp

lemma digits2: "cp div 4096 * 4096 + cp div 64 mod 64 * 64 + cp mod 64 = (cp::nat)"
proof -
  have "cp div 4096 = cp div 64 div 64" by (simp add: div_mult2_eq [symmetric])
  then have "cp div 4096 * 64 + cp div 64 mod 64 = cp div 64" by simp
  moreover have "cp div 64 * 64 + cp mod 64 = cp" by simp
  ultimately show ?thesis by (rule split2)
qed

lemma digits3:
  "cp div 262144 * 262144 + cp div 4096 mod 64 * 4096 + cp div 64 mod 64 * 64 + cp mod 64 = (cp::nat)"
proof -
  have a: "cp div 4096 = cp div 64 div 64" by (simp add: div_mult2_eq [symmetric])
  have "cp div 262144 = cp div 4096 div 64" by (simp add: div_mult2_eq [symmetric])
  then have "cp div 262144 * 64 + cp div 4096 mod 64 = cp div 4096" by simp
  moreover have "cp div 4096 * 64 + cp div 64 mod 64 = cp div 64" using a by simp
  moreover have "cp div 64 * 64 + cp mod 64 = cp" by simp
  ultimately show ?thesis by (rule split3)
qed

lemma utf8_cp_roundtrip:
  assumes "utf8_encode_cp cp = Inr b"
  shows "utf8_decode_cp (b @ rest) = Some (cp, length b)"
proof -
  have m: "n mod 64 < (64::nat)" for n by simp
  have u: "unat (of_nat (k + n) :: byte) = k + n" if "k + n < 256" for k n
    using that by (rule unat_byte_of_nat)
  consider (one) "cp < 0x80"
    | (two) "0x80 \<le> cp" "cp < 0x800"
    | (three) "0x800 \<le> cp" "cp < 0x10000" "\<not> (0xD800 \<le> cp \<and> cp \<le> 0xDFFF)"
    | (four) "0x10000 \<le> cp" "cp < 0x110000"
    using assms by (cases "cp < 0x80"; cases "cp < 0x800"; cases "cp < 0x10000";
        cases "cp < 0x110000") (auto simp: utf8_encode_cp_def split: if_splits)
  then show ?thesis
  proof cases
    case one
    then have b: "b = [of_nat cp]" using assms by (simp add: utf8_encode_cp_def)
    have "unat (of_nat cp :: byte) = cp" using one by (simp add: unat_byte_of_nat)
    with one show ?thesis by (simp add: b decode1)
  next
    case two
    then have b: "b = [of_nat (0xC0 + cp div 64), of_nat (0x80 + cp mod 64)]"
      using assms by (simp add: utf8_encode_cp_def)
    have lo: "2 \<le> cp div 64" using two(1) by (simp add: less_eq_div_iff_mult_less_eq)
    have hi: "cp div 64 < 32" using two(2) by (simp add: div_less_iff_less_mult)
    have u0: "unat (of_nat (0xC0 + cp div 64) :: byte) = 0xC0 + cp div 64"
      using hi by (intro u) simp
    have u1: "unat (of_nat (0x80 + cp mod 64) :: byte) = 0x80 + cp mod 64"
      using m [of cp] by (intro u) simp
    from decode2 [OF u0 lo hi u1 m, of rest] show ?thesis by (simp add: b)
  next
    case three
    then have b: "b = [of_nat (0xE0 + cp div 4096), of_nat (0x80 + cp div 64 mod 64),
        of_nat (0x80 + cp mod 64)]"
      using assms by (auto simp: utf8_encode_cp_def split: if_splits)
    have hi: "cp div 4096 < 16" using three(2) by (simp add: div_less_iff_less_mult)
    have u0: "unat (of_nat (0xE0 + cp div 4096) :: byte) = 0xE0 + cp div 4096"
      using hi by (intro u) simp
    have u1: "unat (of_nat (0x80 + cp div 64 mod 64) :: byte) = 0x80 + cp div 64 mod 64"
      using m [of "cp div 64"] by (intro u) simp
    have u2: "unat (of_nat (0x80 + cp mod 64) :: byte) = 0x80 + cp mod 64"
      using m [of cp] by (intro u) simp
    from decode3 [OF u0 hi u1 m u2 m digits2 three(1) three(3), of rest]
    show ?thesis by (simp add: b)
  next
    case four
    then have b: "b = [of_nat (0xF0 + cp div 262144), of_nat (0x80 + cp div 4096 mod 64),
        of_nat (0x80 + cp div 64 mod 64), of_nat (0x80 + cp mod 64)]"
      using assms by (simp add: utf8_encode_cp_def)
    have hi: "cp div 262144 < 5" using four(2) by (simp add: div_less_iff_less_mult)
    have le: "cp \<le> 0x10FFFF" using four(2) by simp
    have u0: "unat (of_nat (0xF0 + cp div 262144) :: byte) = 0xF0 + cp div 262144"
      using hi by (intro u) simp
    have u1: "unat (of_nat (0x80 + cp div 4096 mod 64) :: byte) = 0x80 + cp div 4096 mod 64"
      using m [of "cp div 4096"] by (intro u) simp
    have u2: "unat (of_nat (0x80 + cp div 64 mod 64) :: byte) = 0x80 + cp div 64 mod 64"
      using m [of "cp div 64"] by (intro u) simp
    have u3: "unat (of_nat (0x80 + cp mod 64) :: byte) = 0x80 + cp mod 64"
      using m [of cp] by (intro u) simp
    from decode4 [OF u0 hi u1 m u2 m u3 m digits3 four(1) le, of rest]
    show ?thesis by (simp add: b)
  qed
qed

lemma utf8_encode_cp_nonempty: "utf8_encode_cp cp = Inr b \<Longrightarrow> b \<noteq> []"
  by (auto simp: utf8_encode_cp_def split: if_splits)

lemma utf8_roundtrip: "utf8_encode cps = Inr bs \<Longrightarrow> utf8_decode bs = Inr cps"
proof (induction cps arbitrary: bs)
  case Nil
  then show ?case by (simp add: utf8_decode.simps)
next
  case (Cons cp cps)
  from Cons.prems obtain b rest where b: "utf8_encode_cp cp = Inr b"
    and rest: "utf8_encode cps = Inr rest" and bs: "bs = b @ rest"
    by (auto split: sum.splits)
  have ne: "b @ rest \<noteq> []" using utf8_encode_cp_nonempty [OF b] by simp
  have "utf8_decode (b @ rest) = Inr (cp # cps)"
    using ne utf8_cp_roundtrip [OF b, of rest] Cons.IH [OF rest]
    by (subst utf8_decode.simps) simp
  with bs show ?case by simp
qed


lemma recv_skip_empty:
  "incoming c = [] # fs \<Longrightarrow> n \<noteq> 0 \<Longrightarrow> recv n c = recv n (c\<lparr>incoming := fs\<rparr>)"
  by (cases "dropWhile (\<lambda>f. f = []) fs") (simp_all add: recv_def del: dropWhile_eq_Nil_conv)

lemma recv_zero: "recv 0 c = (Inr [], c\<lparr>trace := trace c @ [OpRecv 0 []]\<rparr>)"
  by (simp add: recv_def)

lemma recv_header_fields:
  assumes dec: "utf8_decode name_bytes = Inr name"
    and len: "length name_bytes < 2 ^ 32" and size: "S < 2 ^ 64"
    and inc: "incoming c = [be_bytes 4 (length name_bytes), name_bytes, be_bytes 8 S] @ rest"
  shows "\<exists>c'. recv_header c = (Inr (Some (name, S)), c') \<and> incoming c' = rest"
proof -
  let ?lenb = "be_bytes 4 (length name_bytes)"
  let ?szb = "be_bytes 8 S"
  let ?c1 = "c\<lparr>incoming := name_bytes # ?szb # rest, trace := trace c @ [OpRecv 4 ?lenb]\<rparr>"
  have ne4: "?lenb \<noteq> []" using length_be_bytes [of 4 "length name_bytes"] by auto
  have ne8: "?szb \<noteq> []" using length_be_bytes [of 8 S] by auto
  have r1: "recv 4 c = (Inr ?lenb, ?c1)"
    using inc ne4 by (intro recv_token) (simp_all add: length_be_bytes)
  have u1: "unpack_I ?lenb = Inr (length name_bytes)"
    using len by (simp add: unpack_I_def length_be_bytes from_be_be_bytes)
  have u2: "unpack_Q ?szb = Inr S"
    using size by (simp add: unpack_Q_def length_be_bytes from_be_be_bytes)
  have "\<exists>c2 c3. recv (length name_bytes) ?c1 = (Inr name_bytes, c2) \<and>
      recv 8 c2 = (Inr ?szb, c3) \<and> incoming c3 = rest"
  proof (cases "name_bytes = []")
    case True
    let ?c2 = "?c1\<lparr>trace := trace ?c1 @ [OpRecv 0 []]\<rparr>"
    let ?c2' = "?c2\<lparr>incoming := ?szb # rest\<rparr>"
    have "recv (length name_bytes) ?c1 = (Inr name_bytes, ?c2)"
      using True by (simp add: recv_zero)
    moreover have "recv 8 ?c2 = recv 8 ?c2'"
      using True by (intro recv_skip_empty) simp_all
    moreover have "recv 8 ?c2' = (Inr ?szb, ?c2'\<lparr>incoming := rest, trace := trace ?c2' @ [OpRecv 8 ?szb]\<rparr>)"
      using ne8 by (intro recv_token) (simp_all add: length_be_bytes)
    ultimately show ?thesis by simp
  next
    case False
    let ?n = "length name_bytes"
    let ?c2 = "?c1\<lparr>incoming := ?szb # rest, trace := trace ?c1 @ [OpRecv ?n name_bytes]\<rparr>"
    have "recv ?n ?c1 = (Inr name_bytes, ?c2)"
      using False by (intro recv_token) simp_all
    moreover have "recv 8 ?c2 = (Inr ?szb, ?c2\<lparr>incoming := rest, trace := trace ?c2 @ [OpRecv 8 ?szb]\<rparr>)"
      using ne8 by (intro recv_token) (simp_all add: length_be_bytes)
    ultimately show ?thesis by simp
  qed
  then obtain c2 c3 where r2: "recv (length name_bytes) ?c1 = (Inr name_bytes, c2)"
    and r3: "recv 8 c2 = (Inr ?szb, c3)" and i3: "incoming c3 = rest" by blast
  have "recv_header c = (Inr (Some (name, S)), c3)"
    using ne4 by (simp add: recv_header_def r1 u1 r2 dec r3 u2)
  with i3 show ?thesis by blast
qed

lemma recv_prefix:
  assumes "incoming c = (d @ t) # fs" and "d \<noteq> []" and "length d = n"
  shows "recv n c = (Inr d, c\<lparr>incoming := (if t = [] then fs else t # fs),
                                 trace := trace c @ [OpRecv n d]\<rparr>)"
proof -
  from assms(2,3) have "n \<noteq> 0" by auto
  with assms show ?thesis by (simp add: recv_def)
qed

lemma recv_header_coalesced:
  assumes dec: "utf8_decode name_bytes = Inr name"
    and len: "length name_bytes < 2 ^ 32" and size: "S < 2 ^ 64"
    and inc: "incoming c = (be_bytes 4 (length name_bytes) @ name_bytes @ be_bytes 8 S @ tail) # rest"
  shows "\<exists>c'. recv_header c = (Inr (Some (name, S)), c') \<and>
           incoming c' = (if tail = [] then rest else tail # rest)"
proof -
  let ?lenb = "be_bytes 4 (length name_bytes)"
  let ?szb = "be_bytes 8 S"
  let ?c1 = "c\<lparr>incoming := (name_bytes @ ?szb @ tail) # rest, trace := trace c @ [OpRecv 4 ?lenb]\<rparr>"
  have ne4: "?lenb \<noteq> []" using length_be_bytes [of 4 "length name_bytes"] by auto
  have ne8: "?szb \<noteq> []" using length_be_bytes [of 8 S] by auto
  have r1: "recv 4 c = (Inr ?lenb, ?c1)"
    using recv_prefix [OF inc ne4 length_be_bytes] ne8 by simp
  have u1: "unpack_I ?lenb = Inr (length name_bytes)"
    using len by (simp add: unpack_I_def length_be_bytes from_be_be_bytes)
  have u2: "unpack_Q ?szb = Inr S"
    using size by (simp add: unpack_Q_def length_be_bytes from_be_be_bytes)
  have "\<exists>c2 c3. recv (length name_bytes) ?c1 = (Inr name_bytes, c2) \<and>
      recv 8 c2 = (Inr ?szb, c3) \<and> incoming c3 = (if tail = [] then rest else tail # rest)"
  proof (cases "name_bytes = []")
    case True
    let ?c2 = "?c1\<lparr>trace := trace ?c1 @ [OpRecv 0 []]\<rparr>"
    have "recv (length name_bytes) ?c1 = (Inr name_bytes, ?c2)"
      using True by (simp add: recv_zero)
    moreover have "incoming ?c2 = (?szb @ tail) # rest" using True by simp
    from recv_prefix [OF this ne8 length_be_bytes]
    have "recv 8 ?c2 = (Inr ?szb, ?c2\<lparr>incoming := (if tail = [] then rest else tail # rest),
        trace := trace ?c2 @ [OpRecv 8 ?szb]\<rparr>)" .
    ultimately show ?thesis by simp
  next
    case False
    let ?n = "length name_bytes"
    let ?c2 = "?c1\<lparr>incoming := (?szb @ tail) # rest, trace := trace ?c1 @ [OpRecv ?n name_bytes]\<rparr>"
    have "incoming ?c1 = (name_bytes @ ?szb @ tail) # rest" by simp
    from recv_prefix [OF this False refl]
    have "recv ?n ?c1 = (Inr name_bytes, ?c2)" using ne8 by simp
    moreover have "incoming ?c2 = (?szb @ tail) # rest" by simp
    from recv_prefix [OF this ne8 length_be_bytes]
    have "recv 8 ?c2 = (Inr ?szb, ?c2\<lparr>incoming := (if tail = [] then rest else tail # rest),
        trace := trace ?c2 @ [OpRecv 8 ?szb]\<rparr>)" .
    ultimately show ?thesis by simp
  qed
  then obtain c2 c3 where r2: "recv (length name_bytes) ?c1 = (Inr name_bytes, c2)"
    and r3: "recv 8 c2 = (Inr ?szb, c3)"
    and i3: "incoming c3 = (if tail = [] then rest else tail # rest)" by blast
  have "recv_header c = (Inr (Some (name, S)), c3)"
    using ne4 by (simp add: recv_header_def r1 u1 r2 dec r3 u2)
  with i3 show ?thesis by blast
qed

text \<open>
  C6. For every name whose UTF-8 encoding has a byte length between 0 and 65535 and
  every size below \<open>2^64\<close>, the header written by the sender (the 4-byte big-endian
  length, the name bytes, the 8-byte big-endian size, one write each) is decoded by
  the receiver's three header reads to the original pair of name and size, and what
  follows the header is left on the connection. This holds when the three writes
  arrive as they were sent and when they arrive joined in one segment, followed by
  any further data.
\<close>

theorem header_roundtrip:
  assumes "utf8_encode name = Inr name_bytes" and "length name_bytes \<le> 65535"
    and "S < 2 ^ 64" and "\<not> peer_reset cs"
  shows "\<exists>cs' cr' cr''. send_header name S cs = (Inr (), cs') \<and>
           recv_header (cr\<lparr>incoming := sent (drop (length (trace cs)) (trace cs')) @ rest\<rparr>)
             = (Inr (Some (name, S)), cr') \<and>
           incoming cr' = rest \<and>
           recv_header
             (cr\<lparr>incoming := (concat (sent (drop (length (trace cs)) (trace cs'))) @ tail) # rest\<rparr>)
             = (Inr (Some (name, S)), cr'') \<and>
           incoming cr'' = (if tail = [] then rest else tail # rest)"
proof -
  let ?msgs = "[be_bytes 4 (length name_bytes), name_bytes, be_bytes 8 S]"
  let ?cs' = "cs\<lparr>trace := trace cs @ map OpSend ?msgs\<rparr>"
  have len: "length name_bytes < 2 ^ 32" using assms(2) by simp
  have snd: "send_header name S cs = (Inr (), ?cs')"
    using assms(1) len assms(3,4) by (simp add: send_header_ok)
  have msgs: "sent (drop (length (trace cs)) (trace ?cs')) = ?msgs" by simp
  have dec: "utf8_decode name_bytes = Inr name" using assms(1) by (rule utf8_roundtrip)
  from recv_header_fields [OF dec len assms(3), of "cr\<lparr>incoming := ?msgs @ rest\<rparr>" rest]
  obtain cr' where rh: "recv_header (cr\<lparr>incoming := ?msgs @ rest\<rparr>) = (Inr (Some (name, S)), cr')"
    and i: "incoming cr' = rest" by auto
  from recv_header_coalesced [OF dec len assms(3),
      of "cr\<lparr>incoming := (concat ?msgs @ tail) # rest\<rparr>" tail rest]
  obtain cr'' where rh2: "recv_header (cr\<lparr>incoming := (concat ?msgs @ tail) # rest\<rparr>)
        = (Inr (Some (name, S)), cr'')"
    and i2: "incoming cr'' = (if tail = [] then rest else tail # rest)" by auto
  have "send_header name S cs = (Inr (), ?cs') \<and>
      recv_header (cr\<lparr>incoming := sent (drop (length (trace cs)) (trace ?cs')) @ rest\<rparr>)
        = (Inr (Some (name, S)), cr') \<and>
      incoming cr' = rest \<and>
      recv_header
        (cr\<lparr>incoming := (concat (sent (drop (length (trace cs)) (trace ?cs'))) @ tail) # rest\<rparr>)
        = (Inr (Some (name, S)), cr'') \<and>
      incoming cr'' = (if tail = [] then rest else tail # rest)"
    using snd rh i rh2 i2 by (simp only: msgs simp_thms)
  then show ?thesis by blast
qed

theorem header_roundtrip_witness:
  "utf8_encode [114, 233] = Inr [114, 195, 169] \<and>
   length [114, 195, 169 :: byte] \<le> 65535 \<and>
   (2000 :: nat) < 2 ^ 64 \<and>
   \<not> peer_reset \<lparr>incoming = [], peer_reset = False, trace = []\<rparr> \<and>
   (\<exists>cs' cr' cr''.
      send_header [114, 233] 2000 \<lparr>incoming = [], peer_reset = False, trace = []\<rparr> = (Inr (), cs') \<and>
      recv_header (\<lparr>incoming = [], peer_reset = False, trace = []\<rparr>
         \<lparr>incoming := sent (drop (length (trace \<lparr>incoming = [], peer_reset = False, trace = []\<rparr>))
                           (trace cs')) @ [[7]]\<rparr>)
        = (Inr (Some ([114, 233], 2000)), cr') \<and>
      incoming cr' = [[7]] \<and>
      recv_header (\<lparr>incoming = [], peer_reset = False, trace = []\<rparr>
         \<lparr>incoming := (concat (sent (drop (length (trace \<lparr>incoming = [], peer_reset = False, trace = []\<rparr>))
                           (trace cs'))) @ [8, 9]) # [[7]]\<rparr>)
        = (Inr (Some ([114, 233], 2000)), cr'') \<and>
      incoming cr'' = (if [8, 9 :: byte] = [] then [[7]] else [8, 9] # [[7]]))"
proof -
  let ?c = "\<lparr>incoming = [], peer_reset = False, trace = []\<rparr>"
  have h1: "utf8_encode [114, 233] = Inr [114, 195, 169]"
    by (simp add: utf8_encode_cp_def)
  have h2: "length [114, 195, 169 :: byte] \<le> 65535" by simp
  have h3: "(2000 :: nat) < 2 ^ 64" by simp
  have h4: "\<not> peer_reset ?c" by simp
  from header_roundtrip
    [where name = "[114, 233]" and name_bytes = "[114, 195, 169]" and S = 2000 and cs = ?c
       and cr = ?c and rest = "[[7]]" and tail = "[8, 9]", OF h1 h2 h3 h4]
    h1 h2 h3 h4
  show ?thesis by blast
qed

section \<open>Properties of the receiver's output directory\<close>

lemma makedirs_absent:
  "fs received_files = None \<Longrightarrow> makedirs fs received_files = Inr (fs(received_files \<mapsto> Dir))"
  by (simp add: makedirs_def)

lemma makedirs_present:
  "fs received_files = Some Dir \<Longrightarrow> makedirs fs received_files = Inr fs"
  by (simp add: makedirs_def)

lemma receive_payload_dir:
  assumes "fs received_files = None"
    and "receive_payload filename filesize c fs = (e, msgs, c', fs')"
  shows "\<exists>fs2. receive_payload filename filesize c (fs(received_files \<mapsto> Dir)) = (e, msgs, c', fs2) \<and>
           (fs' = fs \<or> fs' = fs2 \<and> fs' received_files = Some Dir)"
proof (cases "send METADATA_OK c")
  case (Pair r c1)
  show ?thesis
  proof (cases r)
    case (Inl x)
    with Pair assms(2) show ?thesis by (simp add: receive_payload_def)
  next
    case (Inr n)
    let ?fs1 = "fs(received_files \<mapsto> Dir)"
    let ?p = "join received_files filename"
    have m1: "makedirs fs received_files = Inr ?fs1" using assms(1) by (rule makedirs_absent)
    have m2: "makedirs ?fs1 received_files = Inr ?fs1" by (simp add: makedirs_def)
    have same: "receive_payload filename filesize c ?fs1 = receive_payload filename filesize c fs"
      using Pair Inr m1 m2 by (simp add: receive_payload_def)
    have dir: "fs' received_files = Some Dir"
    proof (cases "open_wb ?fs1 ?p")
      case (Inl x)
      with Pair Inr m1 assms(2) have "fs' = ?fs1" by (simp add: receive_payload_def)
      then show ?thesis by simp
    next
      case o: (Inr fs2)
      then have ne: "?p \<noteq> received_files" and fs2: "fs2 = ?fs1(?p \<mapsto> File [])"
        by (auto simp: open_wb_def split: if_splits)
      obtain e3 c3 w3 b3 where l: "recv_loop filesize c1 [] 0 = (e3, c3, w3, b3)"
        by (cases "recv_loop filesize c1 [] 0")
      have "fs' = fs2(?p \<mapsto> File w3)"
        using Pair Inr m1 o l assms(2)
        by (cases e3; cases "send OK c3"; cases "fst (send OK c3)")
           (auto simp: receive_payload_def Let_def simp del: recv_loop.simps)
      with ne fs2 show ?thesis by simp
    qed
    from same assms(2) dir show ?thesis by simp
  qed
qed

text \<open>The definitions a concrete session is evaluated with.\<close>

lemmas session_eval =
  receive_file_def receive_body_def receive_payload_def recv_header_def recv_def send_def
  close_def unpack_I_def unpack_Q_def from_be_def makedirs_def open_wb_def join_def
  basename_def parent_def received_files_def str_def slash_def ascii_def METADATA_OK_def
  OK_def ERROR_def utf8_decode.simps utf8_decode_cp_def Let_def

text \<open>
  C9. \<open>os.makedirs("received_files", exist_ok=True)\<close> runs before the destination is
  opened: when the directory is absent it is created, and a session then behaves as it
  does when the directory was already there (the same exception or none, the same
  messages, the same connection), its file system either untouched because the session
  ended before that point or equal to the other run's with the directory in place; a
  directory that exists is left as it is.
\<close>

theorem output_directory_created:
  "(fs received_files = None \<longrightarrow>
      makedirs fs received_files = Inr (fs(received_files \<mapsto> Dir)) \<and>
      (\<forall>e msgs c' fs'. receive_file c fs = (e, msgs, c', fs') \<longrightarrow>
         (\<exists>fs2. receive_file c (fs(received_files \<mapsto> Dir)) = (e, msgs, c', fs2) \<and>
            (fs' = fs \<or> fs' = fs2 \<and> fs' received_files = Some Dir)))) \<and>
   (fs received_files = Some Dir \<longrightarrow> makedirs fs received_files = Inr fs)"
proof (intro conjI impI allI)
  assume "fs received_files = None"
  then show "makedirs fs received_files = Inr (fs(received_files \<mapsto> Dir))"
    by (rule makedirs_absent)
next
  assume "fs received_files = Some Dir"
  then show "makedirs fs received_files = Inr fs" by (rule makedirs_present)
next
  fix e msgs c' fs'
  assume absent: "fs received_files = None"
    and run: "receive_file c fs = (e, msgs, c', fs')"
  let ?fsd = "fs(received_files \<mapsto> Dir)"
  obtain eb mb cb fb where body: "receive_body c fs = (eb, mb, cb, fb)"
    by (cases "receive_body c fs")
  have "\<exists>fb2. receive_body c ?fsd = (eb, mb, cb, fb2) \<and>
      (fb = fs \<or> fb = fb2 \<and> fb received_files = Some Dir)"
  proof (cases "recv_header c")
    case (Pair r c1)
    show ?thesis
    proof (cases r)
      case (Inl x)
      with Pair body show ?thesis by (auto simp: receive_body_def)
    next
      case (Inr h)
      show ?thesis
      proof (cases h)
        case None
        with Pair Inr body show ?thesis by (auto simp: receive_body_def)
      next
        case (Some p)
        obtain filename filesize where p: "p = (filename, filesize)" by (cases p)
        with Pair Inr Some body
        have "receive_payload filename filesize c1 fs = (eb, mb, cb, fb)"
          by (simp add: receive_body_def)
        from receive_payload_dir [OF absent this] Pair Inr Some p
        show ?thesis by (simp add: receive_body_def)
      qed
    qed
  qed
  then obtain fb2 where body2: "receive_body c ?fsd = (eb, mb, cb, fb2)"
    and rel: "fb = fs \<or> fb = fb2 \<and> fb received_files = Some Dir" by blast
  show "\<exists>fs2. receive_file c ?fsd = (e, msgs, c', fs2) \<and>
      (fs' = fs \<or> fs' = fs2 \<and> fs' received_files = Some Dir)"
    using run body body2 rel
    by (cases eb; cases "send ERROR cb"; cases "fst (send ERROR cb)")
       (auto simp: receive_file_def)
qed

theorem output_directory_created_witness:
  "(Map.empty :: fs) received_files = None \<and>
   receive_file
     \<lparr>incoming = [[0, 0, 0, 1], [97], [0, 0, 0, 0, 0, 0, 0, 2], [97, 98]],
       peer_reset = False, trace = []\<rparr> Map.empty
   = (None,
      [FileReceivedSuccessfully (str ''received_files/a'')],
      \<lparr>incoming = [], peer_reset = False,
        trace = [OpRecv 4 [0, 0, 0, 1], OpRecv 1 [97], OpRecv 8 [0, 0, 0, 0, 0, 0, 0, 2],
                 OpSend METADATA_OK, OpRecv 2 [97, 98], OpSend OK, OpClose]\<rparr>,
      [str ''received_files'' \<mapsto> Dir, str ''received_files/a'' \<mapsto> File [97, 98]]) \<and>
   makedirs Map.empty received_files = Inr [received_files \<mapsto> Dir] \<and>
   (\<exists>fs2. receive_file
      \<lparr>incoming = [[0, 0, 0, 1], [97], [0, 0, 0, 0, 0, 0, 0, 2], [97, 98]],
        peer_reset = False, trace = []\<rparr> [received_files \<mapsto> Dir]
      = (None,
         [FileReceivedSuccessfully (str ''received_files/a'')],
         \<lparr>incoming = [], peer_reset = False,
           trace = [OpRecv 4 [0, 0, 0, 1], OpRecv 1 [97], OpRecv 8 [0, 0, 0, 0, 0, 0, 0, 2],
                    OpSend METADATA_OK, OpRecv 2 [97, 98], OpSend OK, OpClose]\<rparr>,
         fs2) \<and>
      fs2 received_files = Some Dir) \<and>
   [received_files \<mapsto> Dir] received_files = Some Dir \<and>
   makedirs [received_files \<mapsto> Dir] received_files = Inr [received_files \<mapsto> Dir]"
proof -
  let ?c = "\<lparr>incoming = [[0, 0, 0, 1], [97], [0, 0, 0, 0, 0, 0, 0, 2], [97, 98]],
       peer_reset = False, trace = []\<rparr>"
  let ?c' = "\<lparr>incoming = [], peer_reset = False,
        trace = [OpRecv 4 [0, 0, 0, 1], OpRecv 1 [97], OpRecv 8 [0, 0, 0, 0, 0, 0, 0, 2],
                 OpSend METADATA_OK, OpRecv 2 [97, 98], OpSend OK, OpClose]\<rparr>"
  let ?fs' = "[str ''received_files'' \<mapsto> Dir, str ''received_files/a'' \<mapsto> File [97, 98]]"
  have absent: "(Map.empty :: fs) received_files = None" by simp
  have present: "[received_files \<mapsto> Dir] received_files = Some Dir" by simp
  have run: "receive_file ?c Map.empty
      = (None, [FileReceivedSuccessfully (str ''received_files/a'')], ?c', ?fs')"
    by (simp add: session_eval)
  have ne: "?fs' \<noteq> Map.empty"
  proof
    assume "?fs' = Map.empty"
    then have "?fs' (str ''received_files/a'') = Map.empty (str ''received_files/a'')" by (rule arg_cong)
    then show False by simp
  qed
  from output_directory_created [of Map.empty ?c] absent
  have mk: "makedirs Map.empty received_files = Inr [received_files \<mapsto> Dir]"
    and step: "\<And>e msgs c' fs'. receive_file ?c Map.empty = (e, msgs, c', fs') \<Longrightarrow>
      \<exists>fs2. receive_file ?c [received_files \<mapsto> Dir] = (e, msgs, c', fs2) \<and>
        (fs' = Map.empty \<or> fs' = fs2 \<and> fs' received_files = Some Dir)"
    by blast+
  from step [OF run] ne
  have two: "\<exists>fs2. receive_file ?c [received_files \<mapsto> Dir]
      = (None, [FileReceivedSuccessfully (str ''received_files/a'')], ?c', fs2) \<and>
      fs2 received_files = Some Dir"
    by metis
  from output_directory_created [of "[received_files \<mapsto> Dir]" ?c] present
  have keep: "makedirs [received_files \<mapsto> Dir] received_files = Inr [received_files \<mapsto> Dir]"
    by blast
  from absent run mk two present keep show ?thesis by blast
qed

section \<open>Sessions on which the receiver departs from the specification\<close>

text \<open>
  C1. The header declares a name of one byte and a size of 5; the peer delivers two
  payload bytes and closes. The empty read leaves the loop through \<open>break\<close> and the
  session goes on to the success path: it prints the success line and sends \<open>OK\<close>,
  with a two-byte file at the destination.
\<close>

theorem early_close_reports_success:
  "receive_file
     \<lparr>incoming = [[0, 0, 0, 1], [97], [0, 0, 0, 0, 0, 0, 0, 5], [97, 98]],
       peer_reset = False, trace = []\<rparr> Map.empty
   = (None,
      [FileReceivedSuccessfully (str ''received_files/a'')],
      \<lparr>incoming = [], peer_reset = False,
        trace = [OpRecv 4 [0, 0, 0, 1], OpRecv 1 [97], OpRecv 8 [0, 0, 0, 0, 0, 0, 0, 5],
                 OpSend METADATA_OK, OpRecv 5 [97, 98], OpRecv 3 [], OpSend OK, OpClose]\<rparr>,
      [str ''received_files'' \<mapsto> Dir, str ''received_files/a'' \<mapsto> File [97, 98]])"
  by (simp add: session_eval)

text \<open>
  C2. On the same payload the loop ends with \<open>bytes_received = 2\<close> for a declared size
  of 5, and the session that contains it still completes as a success.
\<close>

theorem early_close_short_count:
  "recv_loop 5 \<lparr>incoming = [[97, 98]], peer_reset = False, trace = []\<rparr> [] 0
     = (None,
        \<lparr>incoming = [], peer_reset = False, trace = [OpRecv 5 [97, 98], OpRecv 3 []]\<rparr>,
        [97, 98], 2) \<and>
   receive_payload (str ''a'') 5 \<lparr>incoming = [[97, 98]], peer_reset = False, trace = []\<rparr> Map.empty
     = (None,
        [FileReceivedSuccessfully (str ''received_files/a'')],
        \<lparr>incoming = [], peer_reset = False,
          trace = [OpSend METADATA_OK, OpRecv 5 [97, 98], OpRecv 3 [], OpSend OK]\<rparr>,
        [str ''received_files'' \<mapsto> Dir, str ''received_files/a'' \<mapsto> File [97, 98]])"
  by (simp add: session_eval)

text \<open>
  C4. The header declares a name of two bytes; the transport hands over one name byte
  first, then the second name byte together with seven of the eight size bytes, and
  the peer closes with the header incomplete (13 of 14 bytes). \<open>recv(2)\<close> returns one
  byte, \<open>recv(8)\<close> takes the rest as the size field, and the session ends with
  \<open>METADATA_OK\<close> and \<open>OK\<close> instead of an error.
\<close>

theorem short_header_accepted:
  "receive_file
     \<lparr>incoming = [[0, 0, 0, 2], [97], [98, 0, 0, 0, 0, 0, 0, 0]],
       peer_reset = False, trace = []\<rparr> Map.empty
   = (None,
      [FileReceivedSuccessfully (str ''received_files/a'')],
      \<lparr>incoming = [], peer_reset = False,
        trace = [OpRecv 4 [0, 0, 0, 2], OpRecv 2 [97], OpRecv 8 [98, 0, 0, 0, 0, 0, 0, 0],
                 OpSend METADATA_OK, OpRecv 4096 [], OpSend OK, OpClose]\<rparr>,
      [str ''received_files'' \<mapsto> Dir, str ''received_files/a'' \<mapsto> File []])"
  by (simp add: session_eval)

text \<open>
  C8. The first peer sends two bytes and resets the connection. The short length field
  raises in \<open>struct.unpack\<close>, the handler's \<open>conn.send(b"ERROR")\<close> raises in turn,
  and that exception leaves \<open>receive_file\<close> and ends the accept loop: the second
  connection is never served.
\<close>

theorem handler_error_stops_server:
  "start_server
     [\<lparr>incoming = [[0, 0]], peer_reset = True, trace = []\<rparr>,
      \<lparr>incoming = [[0, 0, 0, 1], [97], [0, 0, 0, 0, 0, 0, 0, 2], [97, 98]],
        peer_reset = False, trace = []\<rparr>] Map.empty
   = (Crashed BrokenPipeError,
      [([ErrorMsg StructError],
        \<lparr>incoming = [], peer_reset = True, trace = [OpRecv 4 [0, 0], OpClose]\<rparr>)],
      Map.empty)"
  by (simp add: session_eval)

end
